theory Spec2Isabelle
  imports Complex_Main "HOL-Library.Sublist"
begin

section \<open>MottaHunter: candidate partitioning, permutation generation and SMTP validation\<close>

text \<open>
  A shallow embedding of \<^verbatim>\<open>harvester.py\<close> (\<^verbatim>\<open>MottaHunter._motta_split\<close>) and of
  \<^verbatim>\<open>email_validation.py\<close>. Python integers are \<^typ>\<open>int\<close>, lists are HOL lists,
  a raised exception is the left injection of a sum type.
\<close>

subsection \<open>Python values and exceptions\<close>

datatype py_exception = ValueError | IndexError | TypeError | OverflowError | LibraryError string

text \<open>
  Python slicing \<^verbatim>\<open>xs[i:j]\<close>: a negative index counts from the end, both bounds are
  clamped to the list, and an empty range gives the empty list. It never raises.
\<close>

definition py_slice :: "'a list \<Rightarrow> int \<Rightarrow> int \<Rightarrow> 'a list" where
  "py_slice xs i j =
     (let n = int (length xs);
          lo = (if i < 0 then max 0 (n + i) else min i n);
          hi = (if j < 0 then max 0 (n + j) else min j n)
      in drop (nat lo) (take (nat hi) xs))"

subsection \<open>Partitioning: \<^verbatim>\<open>_motta_split\<close>\<close>

text \<open>
  \<^verbatim>\<open>if not 1 <= selected_part <= total_parts: raise ValueError(...)\<close> comes first, so the
  floor division and the remainder below are only ever taken by a divisor that is at least
  one; there Python's \<^verbatim>\<open>//\<close> and \<^verbatim>\<open>%\<close> are \<^term>\<open>(div)\<close> and \<^term>\<open>(mod)\<close> on \<^typ>\<open>int\<close>.
\<close>

definition motta_split :: "'a list \<Rightarrow> int \<Rightarrow> int \<Rightarrow> py_exception + 'a list" where
  "motta_split permutations total_parts selected_part =
     (if \<not> (1 \<le> selected_part \<and> selected_part \<le> total_parts) then Inl ValueError
      else
        let part_size = int (length permutations) div total_parts;
            remainder = int (length permutations) mod total_parts;
            start_idx = (selected_part - 1) * part_size + min (selected_part - 1) remainder;
            end_idx = start_idx + part_size + (if selected_part \<le> remainder then 1 else 0)
        in Inr (py_slice permutations start_idx end_idx))"

text \<open>The start index of part \<open>k\<close> of a list of length \<open>n\<close>, as \<^verbatim>\<open>start_idx\<close> computes it.\<close>

definition part_start :: "int \<Rightarrow> int \<Rightarrow> int \<Rightarrow> int" where
  "part_start n total_parts k = (k - 1) * (n div total_parts) + min (k - 1) (n mod total_parts)"

subsection \<open>Permutation generation: \<^verbatim>\<open>motta_generate_permutations\<close>\<close>

text \<open>
  Strings are \<^typ>\<open>string\<close>; \<^verbatim>\<open>str.lower()\<close> is modelled on ASCII text, where it maps
  \<^verbatim>\<open>A..Z\<close> to \<^verbatim>\<open>a..z\<close> and leaves every other character alone. The theorems on the
  generator below do not depend on what \<^verbatim>\<open>lower\<close> does to a character.
\<close>

definition py_lower_char :: "char \<Rightarrow> char" where
  "py_lower_char c =
     (if (65::nat) \<le> of_char c \<and> of_char c \<le> (90::nat) then char_of (of_char c + (32::nat)) else c)"

definition py_lower :: "string \<Rightarrow> string" where
  "py_lower s = map py_lower_char s"

text \<open>
  \<^verbatim>\<open>list(dict.fromkeys(permutations))\<close>: the keys are inserted one by one, a key that is
  already present keeps its place, and the keys come back in insertion order.
\<close>

fun fromkeys_acc :: "'a list \<Rightarrow> 'a list \<Rightarrow> 'a list" where
  "fromkeys_acc acc [] = acc"
| "fromkeys_acc acc (x # xs) = fromkeys_acc (if x \<in> set acc then acc else acc @ [x]) xs"

definition dict_fromkeys :: "'a list \<Rightarrow> 'a list" where
  "dict_fromkeys xs = fromkeys_acc [] xs"

text \<open>
  The list \<^verbatim>\<open>permutations\<close> as it stands just before the \<^verbatim>\<open>return\<close>. \<^verbatim>\<open>first_name[0]\<close> and
  \<^verbatim>\<open>last_name[0]\<close> raise \<^verbatim>\<open>IndexError\<close> on an empty string; \<^verbatim>\<open>name[:3]\<close> never raises.
\<close>

definition permutation_patterns :: "string \<Rightarrow> string \<Rightarrow> string \<Rightarrow> int \<Rightarrow> py_exception + string list" where
  "permutation_patterns first_name last_name domain level =
     (let dom = py_lower domain;
          f = py_lower first_name;
          l = py_lower last_name
      in case first_name of
           [] \<Rightarrow> Inl IndexError
         | f0 # _ \<Rightarrow>
             let fi = py_lower [f0];
                 basic =
                   [f @ l @ ''@'' @ dom,
                    f @ ''.'' @ l @ ''@'' @ dom,
                    fi @ l @ ''@'' @ dom,
                    fi @ ''.'' @ l @ ''@'' @ dom,
                    fi @ ''_'' @ l @ ''@'' @ dom,
                    f @ ''-'' @ l @ ''@'' @ dom];
                 medium =
                   (if level \<ge> 2 then
                      basic @
                      [f @ ''@'' @ dom,
                       l @ ''@'' @ dom,
                       f @ ''_'' @ l @ ''@'' @ dom,
                       l @ ''.'' @ f @ ''@'' @ dom,
                       l @ ''_'' @ f @ ''@'' @ dom,
                       l @ f @ ''@'' @ dom]
                    else basic)
             in if level \<ge> 3 then
                  (case last_name of
                     [] \<Rightarrow> Inl IndexError
                   | l0 # _ \<Rightarrow>
                       let li = py_lower [l0];
                           f3 = py_lower (py_slice first_name 0 3);
                           l3 = py_lower (py_slice last_name 0 3)
                       in Inr (medium @
                            [fi @ l3 @ ''@'' @ dom,
                             fi @ ''.'' @ l3 @ ''@'' @ dom,
                             f3 @ li @ ''@'' @ dom,
                             l3 @ fi @ ''@'' @ dom,
                             f @ li @ ''@'' @ dom,
                             l @ fi @ ''@'' @ dom]))
                else Inr medium)"

definition motta_generate_permutations ::
  "string \<Rightarrow> string \<Rightarrow> string \<Rightarrow> int \<Rightarrow> py_exception + string list" where
  "motta_generate_permutations first_name last_name domain level =
     (case permutation_patterns first_name last_name domain level of
        Inl e \<Rightarrow> Inl e
      | Inr permutations \<Rightarrow> Inr (dict_fromkeys permutations))"

text \<open>
  Removal of duplicates by first-occurrence order, in the words of the specification: the
  element at position \<open>i\<close> is kept exactly when it does not occur before position \<open>i\<close>.
\<close>

definition first_occurrences :: "'a list \<Rightarrow> 'a list" where
  "first_occurrences xs =
     map (\<lambda>i. xs ! i) (filter (\<lambda>i. xs ! i \<notin> set (take i xs)) [0..<length xs])"

subsection \<open>The environment of a validation run\<close>

text \<open>
  A library call either returns a value or raises an exception (a subclass of
  \<^verbatim>\<open>Exception\<close>).
\<close>

datatype 'a outcome = Returns 'a | Raises py_exception

type_synonym reply = "int \<times> string"

text \<open>
  What the mail server and the network do in one SMTP session, step by step:
  \<^verbatim>\<open>smtplib.SMTP(mx_server, 25, timeout=10)\<close> connects or raises; \<^verbatim>\<open>helo\<close>, \<^verbatim>\<open>mail\<close> and
  \<^verbatim>\<open>rcpt\<close> each return the server's reply \<open>(code, text)\<close>, whatever its code, or raise
  (a dropped connection, a timeout); leaving the \<^verbatim>\<open>with\<close> block sends \<^verbatim>\<open>QUIT\<close> and raises
  \<^verbatim>\<open>SMTPResponseException\<close> when the reply to it is not 221.
\<close>

record smtp_session =
  on_connect :: "unit outcome"
  on_helo :: "reply outcome"
  on_mail :: "reply outcome"
  on_rcpt :: "reply outcome"
  on_quit :: "unit outcome"

text \<open>
  The world around one run: \<open>resolve\<close> is \<^verbatim>\<open>dns.resolver.resolve(domain, 'MX')\<close>, giving the
  exchange names of the answer's records in order; \<open>smtp n mx sender rcpt\<close> is the behaviour
  of the \<open>n\<close>-th session the run opens (a server may answer the same address differently
  at different times); \<open>random_string\<close> is what \<^verbatim>\<open>random.choices(..., k=10)\<close> joins to;
  \<open>uniform_draw n a b\<close> is what \<^verbatim>\<open>random.uniform(a, b)\<close> gives after \<open>n\<close> sessions: the double
  \<^verbatim>\<open>a + (b - a) * random()\<close> it draws, read as a rational, or an \<^verbatim>\<open>OverflowError\<close> when a bound
  is too large for a float; \<open>sleep_call n d\<close> is what \<^verbatim>\<open>time.sleep(d)\<close> does there: it returns
  after the pause or raises (\<^verbatim>\<open>ValueError\<close> for a negative duration, \<^verbatim>\<open>OverflowError\<close> for one
  that the platform's clock cannot hold). Floating-point rounding and the clock's range are
  the library's and the platform's, so both calls are taken as the world gives them.
\<close>

record network =
  resolve :: "string \<Rightarrow> string list outcome"
  smtp :: "nat \<Rightarrow> string \<Rightarrow> string \<Rightarrow> string \<Rightarrow> smtp_session"
  random_string :: string
  uniform_draw :: "nat \<Rightarrow> int \<Rightarrow> int \<Rightarrow> rat outcome"
  sleep_call :: "nat \<Rightarrow> rat \<Rightarrow> unit outcome"

text \<open>
  What a run does to the outside, in order: it opens SMTP sessions (\<open>Probe mx sender rcpt\<close>),
  prints lines (one constructor for each message text of the source) and sleeps.
\<close>

datatype message =
    Connecting string
  | RcptResponse string reply
  | SmtpError string py_exception
  | SkippingCheck
  | Blank
  | ConfirmsValid string
  | ReportsInvalid string
  | CatchAllAlert string
  | NoMxRecords string
  | FoundMx string
  | FoundValid string
  | Waiting rat
  | Summary nat nat
  | MxError string py_exception

datatype event = Probe string string string | Print message | Sleep rat

fun probes_of :: "event list \<Rightarrow> (string \<times> string \<times> string) list" where
  "probes_of [] = []"
| "probes_of (Probe mx sender rcpt # tr) = (mx, sender, rcpt) # probes_of tr"
| "probes_of (Print m # tr) = probes_of tr"
| "probes_of (Sleep d # tr) = probes_of tr"

text \<open>
  The per-candidate results a trace reports: \<^verbatim>\<open>... found: <email> is valid.\<close> and
  \<^verbatim>\<open>... reports: <email> is invalid.\<close>
\<close>

fun results_of :: "event list \<Rightarrow> (string \<times> bool) list" where
  "results_of [] = []"
| "results_of (Print (FoundValid email) # tr) = (email, True) # results_of tr"
| "results_of (Print (ReportsInvalid email) # tr) = (email, False) # results_of tr"
| "results_of (e # tr) = results_of tr"

subsection \<open>One probe: \<^verbatim>\<open>motta_validate_email_smtp\<close>\<close>

text \<open>
  The three commands inside the \<^verbatim>\<open>with\<close> block. The replies to \<^verbatim>\<open>helo\<close> and \<^verbatim>\<open>mail\<close> are
  discarded; only \<^verbatim>\<open>response = smtp.rcpt(email)\<close> is kept.
\<close>

definition smtp_commands :: "smtp_session \<Rightarrow> reply outcome" where
  "smtp_commands s =
     (case on_helo s of
        Raises e \<Rightarrow> Raises e
      | Returns _ \<Rightarrow>
          (case on_mail s of
             Raises e \<Rightarrow> Raises e
           | Returns _ \<Rightarrow> on_rcpt s))"

text \<open>
  The function takes the trace so far and returns its verdict with the extended trace. The
  \<^verbatim>\<open>except Exception\<close> handler turns every exception into \<^verbatim>\<open>False\<close>; an exception
  raised on leaving the \<^verbatim>\<open>with\<close> block replaces the block's own result or exception.
  (\<^verbatim>\<open>set_debuglevel\<close> only makes the library log to standard error.)
\<close>

definition motta_validate_email_smtp ::
  "network \<Rightarrow> string \<Rightarrow> string \<Rightarrow> string \<Rightarrow> int \<Rightarrow> event list \<Rightarrow> bool \<times> event list" where
  "motta_validate_email_smtp net email sender_email mx_server debug tr =
     (let tr1 = (if debug \<ge> 1 then tr @ [Print (Connecting mx_server)] else tr);
          s = smtp net (length (probes_of tr1)) mx_server sender_email email;
          tr2 = tr1 @ [Probe mx_server sender_email email];
          failed = (\<lambda>e t. (False, if debug \<ge> 1 then t @ [Print (SmtpError email e)] else t))
      in case on_connect s of
           Raises e \<Rightarrow> failed e tr2
         | Returns _ \<Rightarrow>
             (case smtp_commands s of
                Raises e \<Rightarrow>
                  (case on_quit s of
                     Raises e' \<Rightarrow> failed e' tr2
                   | Returns _ \<Rightarrow> failed e tr2)
              | Returns response \<Rightarrow>
                  let tr3 = (if debug \<ge> 1 then tr2 @ [Print (RcptResponse email response)] else tr2)
                  in (case on_quit s of
                        Raises e' \<Rightarrow> failed e' tr3
                      | Returns _ \<Rightarrow> (fst response = 250, tr3))))"

text \<open>
  The verdict in the words of the specification's state machine, read on the session:
  connecting, \<^verbatim>\<open>HELO\<close>, \<^verbatim>\<open>MAIL FROM\<close> and the closing of the session complete without an
  exception, and \<^verbatim>\<open>RCPT TO\<close> returns a reply whose code is 250.
\<close>

definition completes :: "'a outcome \<Rightarrow> bool" where
  "completes x = (case x of Returns _ \<Rightarrow> True | Raises _ \<Rightarrow> False)"

definition accepted :: "smtp_session \<Rightarrow> bool" where
  "accepted s =
     (completes (on_connect s) \<and> completes (on_helo s) \<and> completes (on_mail s)
      \<and> completes (on_quit s)
      \<and> (case on_rcpt s of Returns r \<Rightarrow> fst r = 250 | Raises _ \<Rightarrow> False))"

subsection \<open>The gate: \<^verbatim>\<open>motta_validate_info_address\<close>\<close>

text \<open>
  Returns \<open>(is_valid, is_catch_all)\<close>. With \<^verbatim>\<open>no_check\<close> it returns \<open>(True, False)\<close> at once.
  The address of record is \<^verbatim>\<open>check_email\<close> when that is given and not empty, and
  \<^verbatim>\<open>info\<close> at the domain otherwise; the synthetic address is \<^verbatim>\<open>mottasec-\<close>, the ten random
  letters, and the domain. Nothing in the \<^verbatim>\<open>try\<close> block raises (the probe catches its own
  exceptions), so the \<^verbatim>\<open>except\<close> branch is never taken.
\<close>

definition address_of_record :: "string \<Rightarrow> string option \<Rightarrow> string" where
  "address_of_record domain check_email =
     (case check_email of
        None \<Rightarrow> ''info@'' @ domain
      | Some c \<Rightarrow> if c = [] then ''info@'' @ domain else c)"

definition synthetic_address :: "network \<Rightarrow> string \<Rightarrow> string" where
  "synthetic_address net domain = ''mottasec-'' @ random_string net @ ''@'' @ domain"

definition motta_validate_info_address ::
  "network \<Rightarrow> string \<Rightarrow> string \<Rightarrow> string \<Rightarrow> int \<Rightarrow> bool \<Rightarrow> string option \<Rightarrow> event list
     \<Rightarrow> (bool \<times> bool) \<times> event list" where
  "motta_validate_info_address net domain sender_email mx_server debug no_check check_email tr =
     (if no_check then
        ((True, False), if debug \<ge> 1 then tr @ [Print SkippingCheck] else tr)
      else
        let test_email = address_of_record domain check_email;
            (result, tr1) = motta_validate_email_smtp net test_email sender_email mx_server debug tr;
            tr2 = tr1 @ [Print Blank,
                         Print (if result then ConfirmsValid test_email else ReportsInvalid test_email),
                         Print Blank];
            test_email' = synthetic_address net domain;
            (is_catch_all, tr3) =
               motta_validate_email_smtp net test_email' sender_email mx_server debug tr2;
            tr4 = (if is_catch_all then tr3 @ [Print (CatchAllAlert domain)] else tr3)
        in ((result, is_catch_all), tr4))"

subsection \<open>The run: \<^verbatim>\<open>motta_validate_email_permutations\<close>\<close>

text \<open>
  \<^verbatim>\<open>random.uniform(*delay)\<close> needs exactly two arguments (a \<^verbatim>\<open>TypeError\<close> otherwise); with
  two it is the library's draw.
\<close>

definition py_uniform :: "network \<Rightarrow> nat \<Rightarrow> int list \<Rightarrow> rat outcome" where
  "py_uniform net n delay =
     (case delay of
        [a, b] \<Rightarrow> uniform_draw net n a b
      | _ \<Rightarrow> Raises TypeError)"

text \<open>
  The \<^verbatim>\<open>for email in permutations\<close> loop with its counter \<^verbatim>\<open>valid_count\<close>.
  The waiting line is printed between the draw and the sleep; an exception of either call
  leaves the loop.
\<close>

fun validate_loop ::
  "network \<Rightarrow> string \<Rightarrow> string \<Rightarrow> int list \<Rightarrow> int \<Rightarrow> string list \<Rightarrow> nat \<Rightarrow> event list
     \<Rightarrow> nat outcome \<times> event list" where
  "validate_loop net sender_email mx_server delay debug [] valid_count tr = (Returns valid_count, tr)"
| "validate_loop net sender_email mx_server delay debug (email # rest) valid_count tr =
     (let (is_valid, tr1) = motta_validate_email_smtp net email sender_email mx_server debug tr;
          tr2 = tr1 @ [Print Blank,
                       Print (if is_valid then FoundValid email else ReportsInvalid email),
                       Print Blank];
          valid_count' = (if is_valid then valid_count + 1 else valid_count)
      in case py_uniform net (length (probes_of tr2)) delay of
           Raises e \<Rightarrow> (Raises e, tr2)
         | Returns delay_duration \<Rightarrow>
             let tr3 = tr2 @ [Print (Waiting delay_duration)]
             in (case sleep_call net (length (probes_of tr2)) delay_duration of
                   Raises e \<Rightarrow> (Raises e, tr3)
                 | Returns _ \<Rightarrow>
                     validate_loop net sender_email mx_server delay debug rest valid_count'
                       (tr3 @ [Sleep delay_duration])))"

text \<open>What the run has printed when it reaches the gate: the MX server, at debug level 1 and up.\<close>

definition initial_trace :: "int \<Rightarrow> string \<Rightarrow> event list" where
  "initial_trace debug mx_server = (if debug \<ge> 1 then [Print (FoundMx mx_server)] else [])"

text \<open>The body of the \<^verbatim>\<open>try\<close> block: it returns normally or raises, with the trace so far.\<close>

definition validate_permutations_try ::
  "network \<Rightarrow> string list \<Rightarrow> string \<Rightarrow> string \<Rightarrow> int list \<Rightarrow> int \<Rightarrow> bool \<Rightarrow> string option
     \<Rightarrow> unit outcome \<times> event list" where
  "validate_permutations_try net permutations domain sender_email delay debug no_check check_email =
     (case resolve net domain of
        Raises e \<Rightarrow> (Raises e, [])
      | Returns mx_records \<Rightarrow>
          (case mx_records of
             [] \<Rightarrow> (Returns (), [Print (NoMxRecords domain)])
           | mx_server # _ \<Rightarrow>
               let tr0 = initial_trace debug mx_server;
                   ((info_valid, is_catch_all), tr1) =
                      motta_validate_info_address net domain sender_email mx_server debug
                        no_check check_email tr0
               in if \<not> info_valid \<or> is_catch_all then (Returns (), tr1)
                  else
                    (case validate_loop net sender_email mx_server delay debug permutations 0 tr1 of
                       (Raises e, tr2) \<Rightarrow> (Raises e, tr2)
                     | (Returns valid_count, tr2) \<Rightarrow>
                         (Returns (), tr2 @ [Print (Summary valid_count (length permutations))]))))"

text \<open>
  The function itself: the \<^verbatim>\<open>except Exception\<close> handler prints
  \<^verbatim>\<open>Failed to retrieve MX server for <domain>: <e>\<close> and the function returns \<^verbatim>\<open>None\<close>. Its
  value here is the trace of the run.
\<close>

definition motta_validate_email_permutations ::
  "network \<Rightarrow> string list \<Rightarrow> string \<Rightarrow> string \<Rightarrow> int list \<Rightarrow> int \<Rightarrow> bool \<Rightarrow> string option
     \<Rightarrow> event list" where
  "motta_validate_email_permutations net permutations domain sender_email delay debug no_check check_email =
     (case validate_permutations_try net permutations domain sender_email delay debug no_check check_email of
        (Returns _, tr) \<Rightarrow> tr
      | (Raises e, tr) \<Rightarrow> tr @ [Print (MxError domain e)])"

subsection \<open>Observations on a trace and on a run\<close>

text \<open>The domains for which a trace carries the catch-all alert.\<close>

fun alerts_of :: "event list \<Rightarrow> string list" where
  "alerts_of [] = []"
| "alerts_of (Print (CatchAllAlert domain) # tr) = domain # alerts_of tr"
| "alerts_of (e # tr) = alerts_of tr"

text \<open>
  The results a complete pass over the candidates reports when the first candidate's session
  is the \<open>n\<close>-th of the run: one pair for each candidate, in the order of the list.
\<close>

fun expected_results :: "network \<Rightarrow> string \<Rightarrow> string \<Rightarrow> nat \<Rightarrow> string list \<Rightarrow> (string \<times> bool) list" where
  "expected_results net sender_email mx_server n [] = []"
| "expected_results net sender_email mx_server n (email # rest) =
     (email, accepted (smtp net n mx_server sender_email email))
       # expected_results net sender_email mx_server (Suc n) rest"

text \<open>
  The pair \<open>(info_valid, is_catch_all)\<close> a run computes, when the MX lookup gives it a server
  to compute it on.
\<close>

definition gate_verdict ::
  "network \<Rightarrow> string \<Rightarrow> string \<Rightarrow> int \<Rightarrow> bool \<Rightarrow> string option \<Rightarrow> (bool \<times> bool) option" where
  "gate_verdict net domain sender_email debug no_check check_email =
     (case resolve net domain of
        Raises e \<Rightarrow> None
      | Returns mx_records \<Rightarrow>
          (case mx_records of
             [] \<Rightarrow> None
           | mx_server # _ \<Rightarrow>
               Some (fst (motta_validate_info_address net domain sender_email mx_server debug
                            no_check check_email (initial_trace debug mx_server)))))"

text \<open>Every pause between probes completes: the draw returns a duration and the sleep returns.\<close>

definition pauses_complete :: "network \<Rightarrow> int list \<Rightarrow> bool" where
  "pauses_complete net delay =
     (\<forall>n. \<exists>d. py_uniform net n delay = Returns d \<and> sleep_call net n d = Returns ())"

subsection \<open>Example sessions and networks\<close>

text \<open>
  A session in which every step completes and the server answers \<^verbatim>\<open>HELO\<close>, \<^verbatim>\<open>MAIL FROM\<close> and
  \<^verbatim>\<open>RCPT TO\<close> with the given codes.
\<close>

definition session_replying :: "int \<Rightarrow> int \<Rightarrow> int \<Rightarrow> smtp_session" where
  "session_replying h m r =
     \<lparr>on_connect = Returns (), on_helo = Returns (h, []), on_mail = Returns (m, []),
      on_rcpt = Returns (r, []), on_quit = Returns ()\<rparr>"

text \<open>
  A network whose MX lookup gives \<open>answer\<close> for every domain and whose server treats a
  recipient as \<open>server\<close> says, at any time. Every draw of \<^verbatim>\<open>random()\<close> is one half, and
  \<^verbatim>\<open>time.sleep\<close> does what it does on durations of the size of the examples below (between
  \<open>-2\<close> and \<open>30\<close> seconds): it raises \<^verbatim>\<open>ValueError\<close> for a negative one and returns otherwise.
\<close>

definition example_network :: "string list outcome \<Rightarrow> (string \<Rightarrow> smtp_session) \<Rightarrow> network" where
  "example_network answer server =
     \<lparr>resolve = (\<lambda>domain. answer), smtp = (\<lambda>n mx sender rcpt. server rcpt),
      random_string = ''abcdefghij'',
      uniform_draw = (\<lambda>n a b. Returns (of_int a + (of_int b - of_int a) * (1 / 2))),
      sleep_call = (\<lambda>n d. if d < 0 then Raises ValueError else Returns ())\<rparr>"

text \<open>A server with the listed mailboxes: 250 for them, 550 for every other recipient.\<close>

definition mailboxes :: "string list \<Rightarrow> string \<Rightarrow> smtp_session" where
  "mailboxes boxes rcpt = session_replying 250 250 (if rcpt \<in> set boxes then 250 else 550)"

section \<open>Partitioning lemmas\<close>


lemma concat_cuts:
  fixes g :: "nat \<Rightarrow> nat"
  assumes "\<And>i. g i \<le> g (Suc i)" "g 0 = 0"
  shows "concat (map (\<lambda>i. drop (g i) (take (g (Suc i)) xs)) [0..<n]) = take (g n) xs"
proof (induction n)
  case 0
  then show ?case using assms by simp
next
  case (Suc n)
  have "take (g n) xs = take (g n) (take (g (Suc n)) xs)"
    using assms(1)[of n] by (simp add: min_def)
  moreover have "take (g n) (take (g (Suc n)) xs) @ drop (g n) (take (g (Suc n)) xs) = take (g (Suc n)) xs"
    by (rule append_take_drop_id)
  ultimately show ?case using Suc by simp
qed

lemma upto_as_map: "[1..int n] = map (\<lambda>i. int i + 1) [0..<n]"
proof (induction n)
  case 0 show ?case by simp
next
  case (Suc n)
  have "[1..int (Suc n)] = [1..int n] @ [int n + 1]"
    using upto_rec2[of 1 "int n + 1"] by (simp add: add.commute)
  then show ?case using Suc by simp
qed

lemma part_start_next:
  "part_start n tp k + n div tp + (if k \<le> n mod tp then 1 else 0) = part_start n tp (k + 1)"
  by (simp add: part_start_def algebra_simps min_def)

lemma part_start_nonneg:
  assumes "1 \<le> tp" "0 \<le> n" "1 \<le> k"
  shows "0 \<le> part_start n tp k"
proof -
  have "0 \<le> n div tp" using assms by (simp add: pos_imp_zdiv_nonneg_iff)
  moreover have "0 \<le> n mod tp" using assms by simp
  ultimately show ?thesis using assms by (simp add: part_start_def)
qed

lemma part_start_mono:
  assumes "1 \<le> tp" "0 \<le> n"
  shows "part_start n tp k \<le> part_start n tp (k + 1)"
proof -
  have "0 \<le> n div tp" using assms by (simp add: pos_imp_zdiv_nonneg_iff)
  then show ?thesis using part_start_next[of n tp k, symmetric] by (simp split: if_splits)
qed

lemma part_start_first: "0 \<le> n mod tp \<Longrightarrow> part_start n tp 1 = 0"
  by (simp add: part_start_def)

lemma part_start_last:
  assumes "1 \<le> tp"
  shows "part_start n tp (tp + 1) = n"
proof -
  have "n mod tp < tp" using assms by simp
  then have "min tp (n mod tp) = n mod tp" by simp
  then show ?thesis by (simp add: part_start_def mult.commute)
qed

lemma part_start_le:
  assumes "1 \<le> tp" "0 \<le> n" "k \<le> tp + 1"
  shows "part_start n tp k \<le> n"
proof -
  have d: "0 \<le> n div tp" using assms by (simp add: pos_imp_zdiv_nonneg_iff)
  have "(k - 1) * (n div tp) \<le> tp * (n div tp)"
    using assms d by (intro mult_right_mono) auto
  moreover have "min (k - 1) (n mod tp) \<le> n mod tp" by simp
  moreover have "tp * (n div tp) + n mod tp = n" by simp
  ultimately show ?thesis unfolding part_start_def by linarith
qed

lemma py_slice_inside:
  assumes "0 \<le> i" "0 \<le> j" "j \<le> int (length xs)" "i \<le> j"
  shows "py_slice xs i j = drop (nat i) (take (nat j) xs)"
  using assms by (simp add: py_slice_def Let_def min_def)

lemma motta_split_slice:
  assumes "1 \<le> tp" "1 \<le> k" "k \<le> tp"
  shows "motta_split xs tp k =
         Inr (drop (nat (part_start (int (length xs)) tp k))
                   (take (nat (part_start (int (length xs)) tp (k + 1))) xs))"
proof -
  let ?n = "int (length xs)"
  have a: "0 \<le> part_start ?n tp k" using assms by (intro part_start_nonneg) auto
  have b: "part_start ?n tp k \<le> part_start ?n tp (k + 1)" using assms by (intro part_start_mono) auto
  have c: "part_start ?n tp (k + 1) \<le> ?n" using assms by (intro part_start_le) auto
  have "motta_split xs tp k = Inr (py_slice xs (part_start ?n tp k) (part_start ?n tp (k + 1)))"
    using assms part_start_next[of ?n tp k]
    by (simp add: motta_split_def Let_def part_start_def)
  then show ?thesis using a b c by (simp add: py_slice_inside)
qed


lemma motta_split_concat:
  assumes "1 \<le> tp"
  shows "map (motta_split xs tp) [1..tp] =
           map Inr (map (\<lambda>i. drop (nat (part_start (int (length xs)) tp (int i + 1)))
                         (take (nat (part_start (int (length xs)) tp (int (Suc i) + 1))) xs))
                    [0..<nat tp])
         \<and> concat (map (\<lambda>i. drop (nat (part_start (int (length xs)) tp (int i + 1)))
                         (take (nat (part_start (int (length xs)) tp (int (Suc i) + 1))) xs))
                    [0..<nat tp]) = xs"
proof -
  let ?n = "int (length xs)"
  let ?g = "\<lambda>i. nat (part_start ?n tp (int i + 1))"
  have up: "[1..tp] = map (\<lambda>i. int i + 1) [0..<nat tp]"
    using upto_as_map[of "nat tp"] assms by simp
  have each: "motta_split xs tp (int i + 1) = Inr (drop (?g i) (take (?g (Suc i)) xs))"
    if "i < nat tp" for i
    using motta_split_slice[of tp "int i + 1" xs] that assms by (simp add: add.commute)
  have first: "map (motta_split xs tp) [1..tp] =
        map Inr (map (\<lambda>i. drop (?g i) (take (?g (Suc i)) xs)) [0..<nat tp])"
    unfolding up using each by simp
  have mono: "?g i \<le> ?g (Suc i)" for i
    using part_start_mono[of tp ?n "int i + 1"] assms by (simp add: add.commute)
  have zero: "?g 0 = 0" using part_start_first[of ?n tp] assms by simp
  have "concat (map (\<lambda>i. drop (?g i) (take (?g (Suc i)) xs)) [0..<nat tp]) = take (?g (nat tp)) xs"
    using mono zero by (rule concat_cuts)
  moreover have "?g (nat tp) = length xs"
    using part_start_last[of tp ?n] assms by simp
  ultimately have "concat (map (\<lambda>i. drop (?g i) (take (?g (Suc i)) xs)) [0..<nat tp]) = xs"
    by simp
  with first show ?thesis by blast
qed

subsection \<open>Claim C1: the parts are contiguous, balanced and cover the list\<close>

text \<open>
  C1. For every list, every \<open>total_parts \<ge> 1\<close> and every part \<open>k\<close> with
  \<open>1 \<le> k \<le> total_parts\<close>, \<^verbatim>\<open>_motta_split\<close> returns a contiguous slice \<open>s\<close> of the input
  (\<open>xs = pre @ s @ post\<close>, starting where the source's \<^verbatim>\<open>start_idx\<close> says), of length
  \<open>N div total_parts\<close> plus one when \<open>k \<le> N mod total_parts\<close>; and the slices of the parts
  \<open>1, ..., total_parts\<close>, concatenated in part order, are the input list.
\<close>

theorem motta_split_partition:
  fixes xs :: "'a list"
  assumes "1 \<le> total_parts" and "1 \<le> k" and "k \<le> total_parts"
  shows "(\<exists>s pre post. motta_split xs total_parts k = Inr s
            \<and> xs = pre @ s @ post
            \<and> int (length pre) =
                (k - 1) * (int (length xs) div total_parts) + min (k - 1) (int (length xs) mod total_parts)
            \<and> int (length s) =
                int (length xs) div total_parts + (if k \<le> int (length xs) mod total_parts then 1 else 0))
       \<and> (\<exists>ss. map (motta_split xs total_parts) [1..total_parts] = map Inr ss \<and> concat ss = xs)"
proof -
  let ?n = "int (length xs)"
  let ?a = "part_start ?n total_parts k"
  let ?b = "part_start ?n total_parts (k + 1)"
  let ?s = "drop (nat ?a) (take (nat ?b) xs)"
  have a: "0 \<le> ?a" using assms by (intro part_start_nonneg) auto
  have b: "?a \<le> ?b" using assms by (intro part_start_mono) auto
  have c: "?b \<le> ?n" using assms by (intro part_start_le) auto
  have s: "motta_split xs total_parts k = Inr ?s" using assms by (rule motta_split_slice)
  have "take (nat ?a) (take (nat ?b) xs) @ ?s = take (nat ?b) xs" by (rule append_take_drop_id)
  moreover have "take (nat ?a) (take (nat ?b) xs) = take (nat ?a) xs" using b by (simp add: min_def)
  ultimately have "xs = take (nat ?a) xs @ ?s @ drop (nat ?b) xs"
    by (metis append.assoc append_take_drop_id)
  moreover have "int (length (take (nat ?a) xs)) = ?a" using a b c by simp
  moreover have "int (length ?s) = ?b - ?a" using a b c by simp
  moreover have "?b - ?a = ?n div total_parts + (if k \<le> ?n mod total_parts then 1 else 0)"
    using part_start_next[of ?n total_parts k] by simp
  ultimately have "\<exists>s pre post. motta_split xs total_parts k = Inr s
            \<and> xs = pre @ s @ post
            \<and> int (length pre) = ?a
            \<and> int (length s) = ?n div total_parts + (if k \<le> ?n mod total_parts then 1 else 0)"
    using s by metis
  moreover have "\<exists>ss. map (motta_split xs total_parts) [1..total_parts] = map Inr ss \<and> concat ss = xs"
    using motta_split_concat[OF assms(1), of xs] by blast
  ultimately show ?thesis unfolding part_start_def by blast
qed

theorem motta_split_partition_witness:
  "(\<exists>s pre post. motta_split [1, 2, 3, 4, 5, 6, 7, 8, 9, 10 :: nat] 4 3 = Inr s
       \<and> [1, 2, 3, 4, 5, 6, 7, 8, 9, 10] = pre @ s @ post
       \<and> int (length pre) = 6 \<and> int (length s) = 2)
   \<and> (\<exists>ss. map (motta_split [1, 2, 3, 4, 5, 6, 7, 8, 9, 10 :: nat] 4) [1..4] = map Inr ss
          \<and> concat ss = [1, 2, 3, 4, 5, 6, 7, 8, 9, 10])"
  using motta_split_partition[of 4 3 "[1, 2, 3, 4, 5, 6, 7, 8, 9, 10 :: nat]"]
  by simp

subsection \<open>Claim C6: a part outside the range is refused\<close>

text \<open>
  C6. For every list and every \<open>total_parts\<close>, a \<open>selected_part\<close> outside
  \<open>[1, total_parts]\<close> makes \<^verbatim>\<open>_motta_split\<close> raise \<^verbatim>\<open>ValueError\<close> instead of returning a
  slice; part 4 of 3 is the instance the test suite checks.
\<close>

theorem motta_split_invalid_part:
  "\<not> (1 \<le> selected_part \<and> selected_part \<le> total_parts)
   \<Longrightarrow> motta_split permutations total_parts selected_part = Inl ValueError"
  by (simp add: motta_split_def)

theorem motta_split_invalid_part_witness:
  "\<not> (1 \<le> (4::int) \<and> (4::int) \<le> 3) \<and> motta_split [''email1@test.com'', ''email2@test.com''] 3 4 = Inl ValueError"
  using motta_split_invalid_part[of 4 3 "[''email1@test.com'', ''email2@test.com'']"]
  by simp


section \<open>Permutation generation lemmas\<close>

lemma fromkeys_acc_append:
  "fromkeys_acc acc (xs @ ys) = fromkeys_acc (fromkeys_acc acc xs) ys"
  by (induction xs arbitrary: acc) simp_all

lemma fromkeys_acc_prefix: "prefix acc (fromkeys_acc acc xs)"
proof (induction xs arbitrary: acc)
  case Nil
  show ?case by simp
next
  case (Cons x xs)
  have "prefix acc (if x \<in> set acc then acc else acc @ [x])" by simp
  also have "prefix \<dots> (fromkeys_acc (if x \<in> set acc then acc else acc @ [x]) xs)"
    by (rule Cons.IH)
  finally show ?case by simp
qed

lemma fromkeys_acc_distinct: "distinct acc \<Longrightarrow> distinct (fromkeys_acc acc xs)"
  by (induction xs arbitrary: acc) simp_all

lemma fromkeys_acc_first_occurrences:
  "fromkeys_acc acc xs =
     acc @ map (\<lambda>i. xs ! i)
             (filter (\<lambda>i. xs ! i \<notin> set acc \<and> xs ! i \<notin> set (take i xs)) [0..<length xs])"
proof (induction xs arbitrary: acc)
  case Nil
  show ?case by simp
next
  case (Cons x xs)
  let ?acc = "if x \<in> set acc then acc else acc @ [x]"
  have idx: "[0..<length (x # xs)] = 0 # map Suc [0..<length xs]"
    by (simp add: upt_conv_Cons map_Suc_upt del: upt_Suc)
  have tl: "filter (\<lambda>i. (x # xs) ! i \<notin> set acc \<and> (x # xs) ! i \<notin> set (take i (x # xs)))
              (map Suc [0..<length xs])
            = map Suc (filter (\<lambda>i. xs ! i \<notin> set ?acc \<and> xs ! i \<notin> set (take i xs)) [0..<length xs])"
    by (auto simp: filter_map o_def intro!: arg_cong[where f="map Suc"] filter_cong)
  have "fromkeys_acc acc (x # xs) = fromkeys_acc ?acc xs" by simp
  also have "\<dots> = ?acc @ map (\<lambda>i. xs ! i)
             (filter (\<lambda>i. xs ! i \<notin> set ?acc \<and> xs ! i \<notin> set (take i xs)) [0..<length xs])"
    by (rule Cons.IH)
  also have "\<dots> = acc @ map (\<lambda>i. (x # xs) ! i)
             (filter (\<lambda>i. (x # xs) ! i \<notin> set acc \<and> (x # xs) ! i \<notin> set (take i (x # xs)))
                [0..<length (x # xs)])"
    unfolding idx by (simp add: tl o_def del: upt_Suc)
  finally show ?case .
qed

lemma dict_fromkeys_first_occurrences: "dict_fromkeys xs = first_occurrences xs"
  using fromkeys_acc_first_occurrences[of "[]" xs]
  by (simp add: dict_fromkeys_def first_occurrences_def)

lemma dict_fromkeys_distinct: "distinct (dict_fromkeys xs)"
  by (simp add: dict_fromkeys_def fromkeys_acc_distinct)

lemma dict_fromkeys_prefix: "prefix (dict_fromkeys xs) (dict_fromkeys (xs @ ys))"
  by (simp add: dict_fromkeys_def fromkeys_acc_append fromkeys_acc_prefix)

lemma fromkeys_acc_set: "set (fromkeys_acc acc xs) = set acc \<union> set xs"
  by (induction xs arbitrary: acc) auto

lemma dict_fromkeys_set: "set (dict_fromkeys xs) = set xs"
  by (simp add: dict_fromkeys_def fromkeys_acc_set)

lemma permutation_patterns_levels:
  assumes "first_name \<noteq> []" "last_name \<noteq> []"
  shows "\<exists>B M H. permutation_patterns first_name last_name domain 1 = Inr B
               \<and> permutation_patterns first_name last_name domain 2 = Inr (B @ M)
               \<and> permutation_patterns first_name last_name domain 3 = Inr ((B @ M) @ H)
               \<and> length B = 6 \<and> length M = 6 \<and> length H = 6"
proof -
  obtain f0 fs where f: "first_name = f0 # fs" using assms(1) by (cases first_name) auto
  obtain l0 ls where l: "last_name = l0 # ls" using assms(2) by (cases last_name) auto
  show ?thesis unfolding f l by (simp add: permutation_patterns_def Let_def)
qed

subsection \<open>Claim C9: distinct output, first-occurrence order, levels extend each other\<close>

text \<open>
  C9. For every non-empty first name, non-empty last name and every domain: the pattern list
  of level 1 has six patterns, that of level 2 extends it with six more, and that of level 3
  extends the level-2 list with six more. At each level the generator returns the pattern
  list with duplicates removed by first-occurrence order: a non-empty list of pairwise
  distinct addresses that holds every address of the pattern list. The level-1 output is a
  prefix of the level-2 output, which is a prefix of the level-3 output, so the addresses of
  a level are among those of the next.
\<close>

theorem motta_generate_permutations_levels:
  assumes "first_name \<noteq> []" and "last_name \<noteq> []"
  shows "\<exists>r1 r2 r3 m h p1 p2 p3.
           permutation_patterns first_name last_name domain 1 = Inr r1
         \<and> permutation_patterns first_name last_name domain 2 = Inr r2
         \<and> permutation_patterns first_name last_name domain 3 = Inr r3
         \<and> length r1 = 6 \<and> r2 = r1 @ m \<and> length m = 6 \<and> r3 = r2 @ h \<and> length h = 6
         \<and> motta_generate_permutations first_name last_name domain 1 = Inr p1
         \<and> motta_generate_permutations first_name last_name domain 2 = Inr p2
         \<and> motta_generate_permutations first_name last_name domain 3 = Inr p3
         \<and> p1 = first_occurrences r1 \<and> p2 = first_occurrences r2 \<and> p3 = first_occurrences r3
         \<and> set p1 = set r1 \<and> set p2 = set r2 \<and> set p3 = set r3
         \<and> p1 \<noteq> []
         \<and> distinct p1 \<and> distinct p2 \<and> distinct p3
         \<and> prefix p1 p2 \<and> prefix p2 p3
         \<and> set p1 \<subseteq> set p2 \<and> set p2 \<subseteq> set p3"
proof -
  obtain B M H where
    r: "permutation_patterns first_name last_name domain 1 = Inr B"
       "permutation_patterns first_name last_name domain 2 = Inr (B @ M)"
       "permutation_patterns first_name last_name domain 3 = Inr ((B @ M) @ H)"
    and n: "length B = 6" "length M = 6" "length H = 6"
    using permutation_patterns_levels[OF assms] by blast
  let ?p1 = "dict_fromkeys B" and ?p2 = "dict_fromkeys (B @ M)"
    and ?p3 = "dict_fromkeys ((B @ M) @ H)"
  have g: "motta_generate_permutations first_name last_name domain 1 = Inr ?p1"
          "motta_generate_permutations first_name last_name domain 2 = Inr ?p2"
          "motta_generate_permutations first_name last_name domain 3 = Inr ?p3"
    by (simp_all only: motta_generate_permutations_def r sum.case)
  have pre: "prefix ?p1 ?p2" "prefix ?p2 ?p3"
    by (rule dict_fromkeys_prefix)+
  have sub: "set ?p1 \<subseteq> set ?p2" "set ?p2 \<subseteq> set ?p3"
    using pre by (auto dest: set_mono_prefix)
  have ne: "?p1 \<noteq> []"
    using n(1) dict_fromkeys_set[of B] by (cases B) auto
  have fo: "?p1 = first_occurrences B" "?p2 = first_occurrences (B @ M)"
    "?p3 = first_occurrences ((B @ M) @ H)"
    by (rule dict_fromkeys_first_occurrences)+
  have st: "set ?p1 = set B" "set ?p2 = set (B @ M)" "set ?p3 = set ((B @ M) @ H)"
    by (rule dict_fromkeys_set)+
  have di: "distinct ?p1" "distinct ?p2" "distinct ?p3"
    by (rule dict_fromkeys_distinct)+
  show ?thesis
    apply (rule exI[of _ B], rule exI[of _ "B @ M"], rule exI[of _ "(B @ M) @ H"])
    apply (rule exI[of _ M], rule exI[of _ H])
    apply (rule exI[of _ ?p1], rule exI[of _ ?p2], rule exI[of _ ?p3])
    using r n g pre sub ne fo st di by simp
qed

theorem motta_generate_permutations_levels_witness:
  "''John'' \<noteq> [] \<and> ''Doe'' \<noteq> []
   \<and> motta_generate_permutations ''John'' ''Doe'' ''example.com'' 1
       = Inr [''johndoe@example.com'', ''john.doe@example.com'', ''jdoe@example.com'',
              ''j.doe@example.com'', ''j_doe@example.com'', ''john-doe@example.com'']
   \<and> motta_generate_permutations ''John'' ''Doe'' ''example.com'' 2
       = Inr [''johndoe@example.com'', ''john.doe@example.com'', ''jdoe@example.com'',
              ''j.doe@example.com'', ''j_doe@example.com'', ''john-doe@example.com'',
              ''john@example.com'', ''doe@example.com'', ''john_doe@example.com'',
              ''doe.john@example.com'', ''doe_john@example.com'', ''doejohn@example.com'']
   \<and> motta_generate_permutations ''John'' ''Doe'' ''example.com'' 3
       = Inr [''johndoe@example.com'', ''john.doe@example.com'', ''jdoe@example.com'',
              ''j.doe@example.com'', ''j_doe@example.com'', ''john-doe@example.com'',
              ''john@example.com'', ''doe@example.com'', ''john_doe@example.com'',
              ''doe.john@example.com'', ''doe_john@example.com'', ''doejohn@example.com'',
              ''johd@example.com'', ''doej@example.com'', ''johnd@example.com'']
   \<and> (\<exists>r1 m h. permutation_patterns ''John'' ''Doe'' ''example.com'' 1 = Inr r1
          \<and> permutation_patterns ''John'' ''Doe'' ''example.com'' 2 = Inr (r1 @ m)
          \<and> permutation_patterns ''John'' ''Doe'' ''example.com'' 3 = Inr ((r1 @ m) @ h)
          \<and> length r1 = 6 \<and> length m = 6 \<and> length h = 6)"
proof -
  have 1: "motta_generate_permutations ''John'' ''Doe'' ''example.com'' 1
       = Inr [''johndoe@example.com'', ''john.doe@example.com'', ''jdoe@example.com'',
              ''j.doe@example.com'', ''j_doe@example.com'', ''john-doe@example.com'']"
    by code_simp
  have 2: "motta_generate_permutations ''John'' ''Doe'' ''example.com'' 2
       = Inr [''johndoe@example.com'', ''john.doe@example.com'', ''jdoe@example.com'',
              ''j.doe@example.com'', ''j_doe@example.com'', ''john-doe@example.com'',
              ''john@example.com'', ''doe@example.com'', ''john_doe@example.com'',
              ''doe.john@example.com'', ''doe_john@example.com'', ''doejohn@example.com'']"
    by code_simp
  have 3: "motta_generate_permutations ''John'' ''Doe'' ''example.com'' 3
       = Inr [''johndoe@example.com'', ''john.doe@example.com'', ''jdoe@example.com'',
              ''j.doe@example.com'', ''j_doe@example.com'', ''john-doe@example.com'',
              ''john@example.com'', ''doe@example.com'', ''john_doe@example.com'',
              ''doe.john@example.com'', ''doe_john@example.com'', ''doejohn@example.com'',
              ''johd@example.com'', ''doej@example.com'', ''johnd@example.com'']"
    by code_simp
  have "\<exists>r1 m h. permutation_patterns ''John'' ''Doe'' ''example.com'' 1 = Inr r1
          \<and> permutation_patterns ''John'' ''Doe'' ''example.com'' 2 = Inr (r1 @ m)
          \<and> permutation_patterns ''John'' ''Doe'' ''example.com'' 3 = Inr ((r1 @ m) @ h)
          \<and> length r1 = 6 \<and> length m = 6 \<and> length h = 6"
    using motta_generate_permutations_levels[of "''John''" "''Doe''" "''example.com''"]
    by blast
  then show ?thesis using 1 2 3 by simp
qed

subsection \<open>Claim C10: the unstated non-emptiness precondition\<close>

text \<open>
  C10. With an empty first name the generator raises \<^verbatim>\<open>IndexError\<close> at every level (so at
  the levels 1, 2 and 3); with a non-empty first name and an empty last name it returns a
  list at the levels 1 and 2 and raises \<^verbatim>\<open>IndexError\<close> at level 3.
\<close>

theorem motta_generate_permutations_empty_names:
  "motta_generate_permutations [] last_name domain level = Inl IndexError
   \<and> (first_name \<noteq> [] \<longrightarrow>
        (\<exists>ps. motta_generate_permutations first_name [] domain 1 = Inr ps)
      \<and> (\<exists>ps. motta_generate_permutations first_name [] domain 2 = Inr ps)
      \<and> motta_generate_permutations first_name [] domain 3 = Inl IndexError)"
  by (cases first_name) (simp_all add: motta_generate_permutations_def permutation_patterns_def Let_def)

theorem motta_generate_permutations_empty_names_witness:
  "motta_generate_permutations [] ''Doe'' ''example.com'' 1 = Inl IndexError
   \<and> motta_generate_permutations [] ''Doe'' ''example.com'' 2 = Inl IndexError
   \<and> motta_generate_permutations [] ''Doe'' ''example.com'' 3 = Inl IndexError
   \<and> ''John'' \<noteq> []
   \<and> (\<exists>ps. motta_generate_permutations ''John'' [] ''example.com'' 1 = Inr ps)
   \<and> (\<exists>ps. motta_generate_permutations ''John'' [] ''example.com'' 2 = Inr ps)
   \<and> motta_generate_permutations ''John'' [] ''example.com'' 3 = Inl IndexError"
  using motta_generate_permutations_empty_names[of "''Doe''" "''example.com''" 1 "''John''"]
        motta_generate_permutations_empty_names[of "''Doe''" "''example.com''" 2 "''John''"]
        motta_generate_permutations_empty_names[of "''Doe''" "''example.com''" 3 "''John''"]
  by simp

text \<open>The expected list of \<^verbatim>\<open>test_basic_permutations\<close> and \<^verbatim>\<open>test_lowercase_conversion\<close>.\<close>

lemma generate_john_doe_level1: "motta_generate_permutations ''John'' ''Doe'' ''Example.COM'' 1 =
  Inr [''johndoe@example.com'', ''john.doe@example.com'',
      ''jdoe@example.com'', ''j.doe@example.com'', ''j_doe@example.com'',
      ''john-doe@example.com'']"
  by code_simp

section \<open>Lemmas on probes, the gate and the loop\<close>

lemma probes_of_append: "probes_of (a @ b) = probes_of a @ probes_of b"
  by (induction a rule: probes_of.induct) simp_all

lemma results_of_append: "results_of (a @ b) = results_of a @ results_of b"
  by (induction a rule: results_of.induct) simp_all

lemma alerts_of_append: "alerts_of (a @ b) = alerts_of a @ alerts_of b"
  by (induction a rule: alerts_of.induct) simp_all

lemma smtp_verdict:
  "fst (motta_validate_email_smtp net email sender mx debug tr)
     = accepted (smtp net (length (probes_of tr)) mx sender email)"
  by (auto simp: motta_validate_email_smtp_def accepted_def completes_def smtp_commands_def Let_def probes_of_append
           split: outcome.splits)

lemma smtp_trace:
  "\<exists>ev. snd (motta_validate_email_smtp net email sender mx debug tr) = tr @ ev
        \<and> probes_of ev = [(mx, sender, email)] \<and> results_of ev = [] \<and> alerts_of ev = []"
  by (auto simp: motta_validate_email_smtp_def Let_def split: outcome.splits)

lemma smtp_call:
  obtains ev where
    "motta_validate_email_smtp net email sender mx debug tr
       = (accepted (smtp net (length (probes_of tr)) mx sender email), tr @ ev)"
    "probes_of ev = [(mx, sender, email)]" "results_of ev = []" "alerts_of ev = []"
proof -
  obtain ev where ev: "snd (motta_validate_email_smtp net email sender mx debug tr) = tr @ ev"
    "probes_of ev = [(mx, sender, email)]" "results_of ev = []" "alerts_of ev = []"
    using smtp_trace[of net email sender mx debug tr] by blast
  have "motta_validate_email_smtp net email sender mx debug tr
       = (accepted (smtp net (length (probes_of tr)) mx sender email), tr @ ev)"
    using ev(1) smtp_verdict[of net email sender mx debug tr] by (simp add: prod_eq_iff)
  then show thesis using ev(2-4) that by blast
qed

lemma info_no_check:
  "\<exists>ev. motta_validate_info_address net domain sender mx debug True check_email tr
           = ((True, False), tr @ ev)
        \<and> probes_of ev = [] \<and> results_of ev = [] \<and> alerts_of ev = []"
  by (simp add: motta_validate_info_address_def)

lemma loop_general:
  "\<exists>ev. snd (validate_loop net sender mx delay debug perms vc tr) = tr @ ev
      \<and> prefix (probes_of ev) (map (\<lambda>e. (mx, sender, e)) perms)
      \<and> prefix (results_of ev) (expected_results net sender mx (length (probes_of tr)) perms)
      \<and> alerts_of ev = []
      \<and> (perms \<noteq> [] \<longrightarrow> probes_of ev \<noteq> [] \<and> results_of ev \<noteq> [])"
proof (induction perms arbitrary: vc tr)
  case Nil
  show ?case by simp
next
  case (Cons email rest)
  let ?r = "accepted (smtp net (length (probes_of tr)) mx sender email)"
  obtain ev1 where 1:
    "motta_validate_email_smtp net email sender mx debug tr = (?r, tr @ ev1)"
    "probes_of ev1 = [(mx, sender, email)]" "results_of ev1 = []" "alerts_of ev1 = []"
    by (rule smtp_call)
  let ?out = "[Print Blank, Print (if ?r then FoundValid email else ReportsInvalid email), Print Blank]"
  let ?tr2 = "(tr @ ev1) @ ?out"
  let ?vc = "if ?r then vc + 1 else vc"
  have n2: "length (probes_of ?tr2) = Suc (length (probes_of tr))"
    using 1(2) by (simp add: probes_of_append)
  have res: "results_of (ev1 @ ?out) = [(email, ?r)]"
    using 1(3) by (simp add: results_of_append)
  have prb: "probes_of (ev1 @ ?out) = [(mx, sender, email)]"
    using 1(2) by (simp add: probes_of_append)
  have alr: "alerts_of (ev1 @ ?out) = []"
    using 1(4) by (simp add: alerts_of_append)
  show ?case
  proof (cases "py_uniform net (length (probes_of ?tr2)) delay")
    case (Raises e)
    then have "snd (validate_loop net sender mx delay debug (email # rest) vc tr) = tr @ (ev1 @ ?out)"
      using 1(1) by (simp add: Let_def)
    then show ?thesis using res prb alr by (intro exI[of _ "ev1 @ ?out"]) simp
  next
    case (Returns d)
    note draw = Returns
    show ?thesis
    proof (cases "sleep_call net (length (probes_of ?tr2)) d")
      case (Raises e)
      let ?ev = "(ev1 @ ?out) @ [Print (Waiting d)]"
      have "snd (validate_loop net sender mx delay debug (email # rest) vc tr) = tr @ ?ev"
        using 1(1) draw Raises by (simp add: Let_def)
      moreover have "results_of ?ev = [(email, ?r)]" "probes_of ?ev = [(mx, sender, email)]"
        "alerts_of ?ev = []"
        using res prb alr by (simp_all only: results_of_append probes_of_append alerts_of_append)
             simp_all
      ultimately show ?thesis by (intro exI[of _ ?ev]) simp
    next
      case (Returns u)
      let ?pre = "(ev1 @ ?out) @ [Print (Waiting d), Sleep d]"
      let ?tr3 = "tr @ ?pre"
      obtain ev' where ih:
        "snd (validate_loop net sender mx delay debug rest ?vc ?tr3) = ?tr3 @ ev'"
        "prefix (probes_of ev') (map (\<lambda>e. (mx, sender, e)) rest)"
        "prefix (results_of ev') (expected_results net sender mx (length (probes_of ?tr3)) rest)"
        "alerts_of ev' = []"
        using Cons.IH[of ?vc ?tr3] by blast
      have n3: "length (probes_of ?tr3) = Suc (length (probes_of tr))"
        using 1(2) by (simp add: probes_of_append)
      have pre: "results_of ?pre = [(email, ?r)]" "probes_of ?pre = [(mx, sender, email)]"
        "alerts_of ?pre = []"
        using res prb alr by (simp_all only: results_of_append probes_of_append alerts_of_append)
             simp_all
      have "validate_loop net sender mx delay debug (email # rest) vc tr
              = validate_loop net sender mx delay debug rest ?vc ?tr3"
        using 1(1) draw Returns by (simp add: Let_def)
      then have "snd (validate_loop net sender mx delay debug (email # rest) vc tr) = tr @ (?pre @ ev')"
        using ih(1) by simp
      moreover have "results_of (?pre @ ev') = (email, ?r) # results_of ev'"
        "probes_of (?pre @ ev') = (mx, sender, email) # probes_of ev'"
        "alerts_of (?pre @ ev') = []"
        using pre ih(4) by (simp_all only: results_of_append probes_of_append alerts_of_append)
             simp_all
      ultimately show ?thesis using ih(2,3) unfolding n3
        by (intro exI[of _ "?pre @ ev'"]) simp
    qed
  qed
qed

lemma loop_valid:
  assumes "pauses_complete net delay"
  shows "\<exists>ev. validate_loop net sender mx delay debug perms vc tr
             = (Returns (vc + length (filter snd (expected_results net sender mx (length (probes_of tr)) perms))),
                tr @ ev)
      \<and> probes_of ev = map (\<lambda>e. (mx, sender, e)) perms
      \<and> results_of ev = expected_results net sender mx (length (probes_of tr)) perms
      \<and> alerts_of ev = []"
proof (induction perms arbitrary: vc tr)
  case Nil
  show ?case by simp
next
  case (Cons email rest)
  let ?r = "accepted (smtp net (length (probes_of tr)) mx sender email)"
  obtain ev1 where 1:
    "motta_validate_email_smtp net email sender mx debug tr = (?r, tr @ ev1)"
    "probes_of ev1 = [(mx, sender, email)]" "results_of ev1 = []" "alerts_of ev1 = []"
    by (rule smtp_call)
  let ?out = "[Print Blank, Print (if ?r then FoundValid email else ReportsInvalid email), Print Blank]"
  let ?tr2 = "(tr @ ev1) @ ?out"
  let ?vc = "if ?r then vc + 1 else vc"
  obtain d where d: "py_uniform net (length (probes_of ?tr2)) delay = Returns d"
    "sleep_call net (length (probes_of ?tr2)) d = Returns ()"
    using assms unfolding pauses_complete_def by blast
  let ?pre = "(ev1 @ ?out) @ [Print (Waiting d), Sleep d]"
  let ?tr3 = "tr @ ?pre"
  have n3: "length (probes_of ?tr3) = Suc (length (probes_of tr))"
    using 1(2) by (simp add: probes_of_append)
  obtain ev' where ih:
    "validate_loop net sender mx delay debug rest ?vc ?tr3
       = (Returns (?vc + length (filter snd (expected_results net sender mx (Suc (length (probes_of tr))) rest))),
          ?tr3 @ ev')"
    "probes_of ev' = map (\<lambda>e. (mx, sender, e)) rest"
    "results_of ev' = expected_results net sender mx (Suc (length (probes_of tr))) rest"
    "alerts_of ev' = []"
    using Cons.IH[of ?vc ?tr3] unfolding n3 by blast
  have pre: "results_of ?pre = [(email, ?r)]" "probes_of ?pre = [(mx, sender, email)]"
    "alerts_of ?pre = []"
    using 1(2-4) by (simp_all add: results_of_append probes_of_append alerts_of_append)
  have "validate_loop net sender mx delay debug (email # rest) vc tr
          = validate_loop net sender mx delay debug rest ?vc ?tr3"
    using 1(1) d by (simp add: Let_def)
  then have "validate_loop net sender mx delay debug (email # rest) vc tr
       = (Returns (vc + length (filter snd (expected_results net sender mx (length (probes_of tr)) (email # rest)))),
          tr @ (?pre @ ev'))"
    using ih(1) by simp
  moreover have "results_of (?pre @ ev') = (email, ?r) # results_of ev'"
    "probes_of (?pre @ ev') = (mx, sender, email) # probes_of ev'"
    "alerts_of (?pre @ ev') = []"
    using pre ih(4) by (simp_all only: results_of_append probes_of_append alerts_of_append) simp_all
  ultimately show ?case using ih(2,3)
    by (intro exI[of _ "?pre @ ev'"]) simp
qed

lemma run_resolved:
  assumes "resolve net domain = Returns (mx # others)"
    and "motta_validate_info_address net domain sender mx debug no_check check_email
           (initial_trace debug mx) = ((info_valid, is_catch_all), tr1)"
  shows "motta_validate_email_permutations net perms domain sender delay debug no_check check_email =
           (if \<not> info_valid \<or> is_catch_all then tr1
            else case validate_loop net sender mx delay debug perms 0 tr1 of
                   (Raises e, tr2) \<Rightarrow> tr2 @ [Print (MxError domain e)]
                 | (Returns valid_count, tr2) \<Rightarrow> tr2 @ [Print (Summary valid_count (length perms))])"
  using assms
  by (simp add: motta_validate_email_permutations_def validate_permutations_try_def
           split: prod.splits outcome.splits)

lemma run_gate_closed:
  assumes "resolve net domain = Returns (mx # others)"
    and "motta_validate_info_address net domain sender mx debug no_check check_email
           (initial_trace debug mx) = ((info_valid, is_catch_all), tr1)"
    and "\<not> info_valid \<or> is_catch_all"
  shows "motta_validate_email_permutations net perms domain sender delay debug no_check check_email = tr1"
  using run_resolved[OF assms(1,2)] assms(3) by simp

lemma initial_trace_plain:
  "probes_of (initial_trace debug mx) = []" "results_of (initial_trace debug mx) = []"
  "alerts_of (initial_trace debug mx) = []"
  by (simp_all add: initial_trace_def)

lemma gate_shape:
  "\<exists>iv ca gate_ev.
      motta_validate_info_address net domain sender mx debug no_check check_email tr
        = ((iv, ca), tr @ gate_ev)
    \<and> probes_of gate_ev =
          (if no_check then []
           else [(mx, sender, address_of_record domain check_email),
                 (mx, sender, synthetic_address net domain)])
    \<and> alerts_of gate_ev = (if ca then [domain] else [])
    \<and> (iv \<longrightarrow> results_of gate_ev = [])
    \<and> (no_check \<longrightarrow> iv \<and> \<not> ca)
    \<and> (ca \<longrightarrow> gate_ev \<noteq> [] \<and> last gate_ev = Print (CatchAllAlert domain))"
proof (cases no_check)
  case True
  then show ?thesis
    using info_no_check[of net domain sender mx debug check_email tr] by auto
next
  case False
  let ?t1 = "address_of_record domain check_email"
  let ?t2 = "synthetic_address net domain"
  obtain ev1 where 1:
    "motta_validate_email_smtp net ?t1 sender mx debug tr
       = (accepted (smtp net (length (probes_of tr)) mx sender ?t1), tr @ ev1)"
    "probes_of ev1 = [(mx, sender, ?t1)]" "results_of ev1 = []" "alerts_of ev1 = []"
    by (rule smtp_call)
  let ?r = "accepted (smtp net (length (probes_of tr)) mx sender ?t1)"
  let ?mid = "[Print Blank, Print (if ?r then ConfirmsValid ?t1 else ReportsInvalid ?t1), Print Blank]"
  let ?tr2 = "(tr @ ev1) @ ?mid"
  obtain ev2 where 2:
    "motta_validate_email_smtp net ?t2 sender mx debug ?tr2
       = (accepted (smtp net (length (probes_of ?tr2)) mx sender ?t2), ?tr2 @ ev2)"
    "probes_of ev2 = [(mx, sender, ?t2)]" "results_of ev2 = []" "alerts_of ev2 = []"
    by (rule smtp_call)
  let ?c = "accepted (smtp net (length (probes_of ?tr2)) mx sender ?t2)"
  let ?ev = "ev1 @ ?mid @ ev2 @ (if ?c then [Print (CatchAllAlert domain)] else [])"
  have run: "motta_validate_info_address net domain sender mx debug no_check check_email tr
        = ((?r, ?c), tr @ ?ev)"
    using False 1(1) 2(1) by (simp add: motta_validate_info_address_def Let_def)
  have p: "probes_of ?ev = [(mx, sender, ?t1), (mx, sender, ?t2)]"
    using 1(2) 2(2) by (simp add: probes_of_append)
  have a: "alerts_of ?ev = (if ?c then [domain] else [])"
    using 1(4) 2(4) by (simp add: alerts_of_append)
  have r: "?r \<longrightarrow> results_of ?ev = []"
    using 1(3) 2(3) by (simp add: results_of_append)
  have l: "?c \<longrightarrow> ?ev \<noteq> [] \<and> last ?ev = Print (CatchAllAlert domain)"
    by simp
  show ?thesis
    using False run p a r l by (intro exI[of _ ?r] exI[of _ ?c] exI[of _ ?ev]) simp
qed

lemma run_shape:
  assumes "resolve net domain = Returns (mx # others)"
  shows "\<exists>iv ca gate_ev.
      motta_validate_info_address net domain sender mx debug no_check check_email (initial_trace debug mx)
        = ((iv, ca), initial_trace debug mx @ gate_ev)
    \<and> gate_verdict net domain sender debug no_check check_email = Some (iv, ca)
    \<and> probes_of gate_ev =
          (if no_check then []
           else [(mx, sender, address_of_record domain check_email),
                 (mx, sender, synthetic_address net domain)])
    \<and> alerts_of gate_ev = (if ca then [domain] else [])
    \<and> (iv \<longrightarrow> results_of gate_ev = [])
    \<and> (no_check \<longrightarrow> iv \<and> \<not> ca)
    \<and> (ca \<longrightarrow> gate_ev \<noteq> [] \<and> last gate_ev = Print (CatchAllAlert domain))
    \<and> (\<not> iv \<or> ca \<longrightarrow>
          motta_validate_email_permutations net perms domain sender delay debug no_check check_email
            = initial_trace debug mx @ gate_ev)
    \<and> (iv \<and> \<not> ca \<longrightarrow>
          (\<exists>ev m. motta_validate_email_permutations net perms domain sender delay debug no_check check_email
                     = (initial_trace debug mx @ gate_ev) @ ev @ [Print m]
                 \<and> ((\<exists>c. m = Summary c (length perms)) \<or> (\<exists>e. m = MxError domain e))
                 \<and> prefix (probes_of ev) (map (\<lambda>e. (mx, sender, e)) perms)
                 \<and> prefix (results_of ev)
                      (expected_results net sender mx (length (probes_of gate_ev)) perms)
                 \<and> alerts_of ev = []
                 \<and> (perms \<noteq> [] \<longrightarrow> probes_of ev \<noteq> [] \<and> results_of ev \<noteq> [])
                 \<and> (pauses_complete net delay \<longrightarrow>
                      probes_of ev = map (\<lambda>e. (mx, sender, e)) perms
                    \<and> results_of ev = expected_results net sender mx (length (probes_of gate_ev)) perms
                    \<and> (\<exists>c. m = Summary c (length perms)))))"
proof -
  let ?tr0 = "initial_trace debug mx"
  obtain iv ca gate_ev where g:
    "motta_validate_info_address net domain sender mx debug no_check check_email ?tr0
        = ((iv, ca), ?tr0 @ gate_ev)"
    "probes_of gate_ev =
          (if no_check then []
           else [(mx, sender, address_of_record domain check_email),
                 (mx, sender, synthetic_address net domain)])"
    "alerts_of gate_ev = (if ca then [domain] else [])"
    "iv \<longrightarrow> results_of gate_ev = []"
    "no_check \<longrightarrow> iv \<and> \<not> ca"
    "ca \<longrightarrow> gate_ev \<noteq> [] \<and> last gate_ev = Print (CatchAllAlert domain)"
    using gate_shape[of net domain sender mx debug no_check check_email ?tr0] by blast
  let ?tr1 = "?tr0 @ gate_ev"
  let ?run = "motta_validate_email_permutations net perms domain sender delay debug no_check check_email"
  have gv: "gate_verdict net domain sender debug no_check check_email = Some (iv, ca)"
    using assms g(1) by (simp add: gate_verdict_def)
  have closed: "\<not> iv \<or> ca \<longrightarrow> ?run = ?tr1"
    using run_gate_closed[OF assms g(1)] by blast
  have n1: "length (probes_of ?tr1) = length (probes_of gate_ev)"
    by (simp add: probes_of_append initial_trace_plain)
  have "open": "\<exists>ev m. ?run = ?tr1 @ ev @ [Print m]
                 \<and> ((\<exists>c. m = Summary c (length perms)) \<or> (\<exists>e. m = MxError domain e))
                 \<and> prefix (probes_of ev) (map (\<lambda>e. (mx, sender, e)) perms)
                 \<and> prefix (results_of ev)
                      (expected_results net sender mx (length (probes_of gate_ev)) perms)
                 \<and> alerts_of ev = []
                 \<and> (perms \<noteq> [] \<longrightarrow> probes_of ev \<noteq> [] \<and> results_of ev \<noteq> [])
                 \<and> (pauses_complete net delay \<longrightarrow>
                      probes_of ev = map (\<lambda>e. (mx, sender, e)) perms
                    \<and> results_of ev = expected_results net sender mx (length (probes_of gate_ev)) perms
                    \<and> (\<exists>c. m = Summary c (length perms)))"
    if io: "iv \<and> \<not> ca"
  proof -
    have g1: "motta_validate_info_address net domain sender mx debug no_check check_email ?tr0
        = ((True, False), ?tr1)" using g(1) io by simp
    let ?loop = "validate_loop net sender mx delay debug perms 0 ?tr1"
    have shape: "?run = (case ?loop of
                   (Raises e, tr2) \<Rightarrow> tr2 @ [Print (MxError domain e)]
                 | (Returns valid_count, tr2) \<Rightarrow> tr2 @ [Print (Summary valid_count (length perms))])"
      using run_resolved[OF assms g1] by simp
    obtain ev where ev:
      "snd ?loop = ?tr1 @ ev"
      "prefix (probes_of ev) (map (\<lambda>e. (mx, sender, e)) perms)"
      "prefix (results_of ev) (expected_results net sender mx (length (probes_of ?tr1)) perms)"
      "alerts_of ev = []"
      "perms \<noteq> [] \<longrightarrow> probes_of ev \<noteq> [] \<and> results_of ev \<noteq> []"
      using loop_general[of net sender mx delay debug perms 0 ?tr1] by blast
    obtain m where m: "?run = ?tr1 @ ev @ [Print m]"
      "(\<exists>c. m = Summary c (length perms)) \<or> (\<exists>e. m = MxError domain e)"
      "(\<exists>c. fst ?loop = Returns c) \<longrightarrow> (\<exists>c. m = Summary c (length perms))"
      using shape ev(1) by (cases ?loop) (auto split: outcome.splits)
    have valid: "probes_of ev = map (\<lambda>e. (mx, sender, e)) perms
                    \<and> results_of ev = expected_results net sender mx (length (probes_of gate_ev)) perms
                    \<and> (\<exists>c. m = Summary c (length perms))"
      if ok: "pauses_complete net delay"
    proof -
      obtain ev' c where v:
        "?loop = (Returns c, ?tr1 @ ev')"
        "probes_of ev' = map (\<lambda>e. (mx, sender, e)) perms"
        "results_of ev' = expected_results net sender mx (length (probes_of ?tr1)) perms"
        using loop_valid[OF ok, of sender mx debug perms 0 ?tr1] by blast
      have "ev' = ev" using v(1) ev(1) by simp
      then show ?thesis using v m(3) unfolding n1 by simp
    qed
    show ?thesis
      using m(1,2) ev(2-5) valid unfolding n1 by blast
  qed
  show ?thesis
    using g gv closed "open" by blast
qed

section \<open>The probe\<close>

subsection \<open>Claim C2: the verdict of one probe\<close>

text \<open>
  C2 as stated fails: a reply other than 250 to \<^verbatim>\<open>HELO\<close> (or to \<^verbatim>\<open>MAIL FROM\<close>) does not make
  the probe return false, because those replies are never looked at. Here the server answers
  \<^verbatim>\<open>HELO\<close> with 500 and \<^verbatim>\<open>RCPT TO\<close> with 250, and the probe returns true.
\<close>

theorem probe_ignores_helo_reply:
  "on_helo (session_replying 500 250 250) = Returns (500, [])
   \<and> fst (motta_validate_email_smtp
            (example_network (Returns [''mx.example.com.'']) (\<lambda>rcpt. session_replying 500 250 250))
            ''a@example.com'' ''me@example.org'' ''mx.example.com.'' 0 [])"
  by (simp add: motta_validate_email_smtp_def smtp_commands_def session_replying_def
        example_network_def)

text \<open>
  C2, amended. For every input the probe returns a boolean (no exception leaves it) and opens
  exactly one session: the boolean is true if and only if connecting, \<^verbatim>\<open>HELO\<close>, \<^verbatim>\<open>MAIL FROM\<close>,
  \<^verbatim>\<open>RCPT TO\<close> and the closing of the session all complete without raising and the reply to
  \<^verbatim>\<open>RCPT TO\<close> has code 250. An exception at any step, and any other \<^verbatim>\<open>RCPT TO\<close> code, give false;
  the codes of the replies to \<^verbatim>\<open>HELO\<close> and \<^verbatim>\<open>MAIL FROM\<close> play no part.
\<close>

theorem probe_verdict:
  "fst (motta_validate_email_smtp net email sender_email mx_server debug tr)
     = accepted (smtp net (length (probes_of tr)) mx_server sender_email email)
   \<and> (\<exists>ev. snd (motta_validate_email_smtp net email sender_email mx_server debug tr) = tr @ ev
          \<and> probes_of ev = [(mx_server, sender_email, email)])"
  using smtp_verdict[of net email sender_email mx_server debug tr]
        smtp_trace[of net email sender_email mx_server debug tr]
  by blast

theorem probe_verdict_witness:
  "fst (motta_validate_email_smtp
          (example_network (Returns [''mx.example.com.'']) (mailboxes [''a@example.com'']))
          ''a@example.com'' ''me@example.org'' ''mx.example.com.'' 0 [])
   \<and> \<not> fst (motta_validate_email_smtp
          (example_network (Returns [''mx.example.com.'']) (mailboxes [''a@example.com'']))
          ''b@example.com'' ''me@example.org'' ''mx.example.com.'' 0 [])
   \<and> \<not> fst (motta_validate_email_smtp
          (example_network (Returns [''mx.example.com.''])
             (\<lambda>rcpt. (session_replying 250 250 250)\<lparr>on_mail := Raises (LibraryError ''timed out'')\<rparr>))
          ''a@example.com'' ''me@example.org'' ''mx.example.com.'' 0 [])"
  using probe_verdict[of "example_network (Returns [''mx.example.com.'']) (mailboxes [''a@example.com''])"
          "''a@example.com''" "''me@example.org''" "''mx.example.com.''" 0 "[]"]
        probe_verdict[of "example_network (Returns [''mx.example.com.'']) (mailboxes [''a@example.com''])"
          "''b@example.com''" "''me@example.org''" "''mx.example.com.''" 0 "[]"]
        probe_verdict[of "example_network (Returns [''mx.example.com.''])
             (\<lambda>rcpt. (session_replying 250 250 250)\<lparr>on_mail := Raises (LibraryError ''timed out'')\<rparr>)"
          "''a@example.com''" "''me@example.org''" "''mx.example.com.''" 0 "[]"]
  by (simp add: accepted_def completes_def example_network_def mailboxes_def session_replying_def)

section \<open>The run\<close>

subsection \<open>Claim C8: no MX server, no probe\<close>

text \<open>
  C8. When the MX lookup raises or returns no record, the run opens no SMTP session, prints
  one line that reports the failure (\<^verbatim>\<open>Failed to retrieve MX server ...\<close> for an exception,
  \<^verbatim>\<open>No MX records found ...\<close> for an empty answer) and returns: the exception of the lookup
  is caught by the function's handler.
\<close>

theorem no_mx_short_circuits:
  assumes "resolve net domain = Raises e \<or> resolve net domain = Returns []"
  shows "probes_of (motta_validate_email_permutations net perms domain sender delay debug no_check check_email) = []
       \<and> motta_validate_email_permutations net perms domain sender delay debug no_check check_email
           = [Print (if resolve net domain = Returns [] then NoMxRecords domain else MxError domain e)]"
  using assms
  by (auto simp: motta_validate_email_permutations_def validate_permutations_try_def)

theorem no_mx_short_circuits_witness:
  "motta_validate_email_permutations
      (example_network (Raises (LibraryError ''NXDOMAIN'')) (mailboxes [''a@example.com'']))
      [''a@example.com'', ''b@example.com''] ''example.com'' ''me@example.org'' [20, 30] 0 False None
     = [Print (MxError ''example.com'' (LibraryError ''NXDOMAIN''))]
   \<and> motta_validate_email_permutations
      (example_network (Returns []) (mailboxes [''a@example.com'']))
      [''a@example.com'', ''b@example.com''] ''example.com'' ''me@example.org'' [20, 30] 0 False None
     = [Print (NoMxRecords ''example.com'')]"
  using no_mx_short_circuits[of "example_network (Raises (LibraryError ''NXDOMAIN'')) (mailboxes [''a@example.com''])"
          "''example.com''" "LibraryError ''NXDOMAIN''" "[''a@example.com'', ''b@example.com'']"
          "''me@example.org''" "[20, 30]" 0 False None]
        no_mx_short_circuits[of "example_network (Returns []) (mailboxes [''a@example.com''])"
          "''example.com''" "LibraryError ''NXDOMAIN''" "[''a@example.com'', ''b@example.com'']"
          "''me@example.org''" "[20, 30]" 0 False None]
  by (simp add: example_network_def)

subsection \<open>Claim C3: a detected catch-all ends the run before any candidate\<close>

text \<open>
  C3. If the probe of the synthetic random address returns true, the run is over with the
  gate: its trace is the gate's trace whatever the candidate list holds (so it is the trace
  of the run on the empty list), the only sessions opened are the one for the address of
  record and the one for the synthetic address, and the last line printed is the catch-all
  alert. That alert tells the outcome apart from a rejection of all candidates: a run prints
  it exactly when the catch-all probe returned true.
\<close>

theorem catch_all_gates_run:
  "alerts_of (motta_validate_email_permutations net perms domain sender delay debug no_check check_email)
     = (if (\<exists>v. gate_verdict net domain sender debug no_check check_email = Some (v, True))
        then [domain] else [])
   \<and> ((\<exists>v. gate_verdict net domain sender debug no_check check_email = Some (v, True)) \<longrightarrow>
        (\<exists>mx others.
            resolve net domain = Returns (mx # others)
          \<and> motta_validate_email_permutations net perms domain sender delay debug no_check check_email
              = snd (motta_validate_info_address net domain sender mx debug no_check check_email
                       (initial_trace debug mx))
          \<and> motta_validate_email_permutations net perms domain sender delay debug no_check check_email
              = motta_validate_email_permutations net [] domain sender delay debug no_check check_email
          \<and> probes_of (motta_validate_email_permutations net perms domain sender delay debug no_check check_email)
              = [(mx, sender, address_of_record domain check_email),
                 (mx, sender, synthetic_address net domain)]
          \<and> last (motta_validate_email_permutations net perms domain sender delay debug no_check check_email)
              = Print (CatchAllAlert domain)))"
proof -
  let ?run = "\<lambda>ps. motta_validate_email_permutations net ps domain sender delay debug no_check check_email"
  let ?gv = "gate_verdict net domain sender debug no_check check_email"
  consider (raises) e where "resolve net domain = Raises e"
    | (empty) "resolve net domain = Returns []"
    | (server) mx others where "resolve net domain = Returns (mx # others)"
    by (cases "resolve net domain") (auto simp: neq_Nil_conv intro: list.exhaust)
  then show ?thesis
  proof cases
    case raises
    then have "?gv = None" "?run perms = [Print (MxError domain e)]"
      by (simp_all add: gate_verdict_def motta_validate_email_permutations_def
            validate_permutations_try_def)
    then show ?thesis by simp
  next
    case empty
    then have "?gv = None" "?run perms = [Print (NoMxRecords domain)]"
      by (simp_all add: gate_verdict_def motta_validate_email_permutations_def
            validate_permutations_try_def)
    then show ?thesis by simp
  next
    case server
    let ?tr0 = "initial_trace debug mx"
    obtain iv ca gate_ev where g:
      "motta_validate_info_address net domain sender mx debug no_check check_email ?tr0
         = ((iv, ca), ?tr0 @ gate_ev)"
      "?gv = Some (iv, ca)"
      "probes_of gate_ev =
          (if no_check then []
           else [(mx, sender, address_of_record domain check_email),
                 (mx, sender, synthetic_address net domain)])"
      "alerts_of gate_ev = (if ca then [domain] else [])"
      "no_check \<longrightarrow> iv \<and> \<not> ca"
      "ca \<longrightarrow> gate_ev \<noteq> [] \<and> last gate_ev = Print (CatchAllAlert domain)"
      "\<not> iv \<or> ca \<longrightarrow> ?run perms = ?tr0 @ gate_ev"
      "iv \<and> \<not> ca \<longrightarrow>
          (\<exists>ev m. ?run perms = (?tr0 @ gate_ev) @ ev @ [Print m]
                 \<and> ((\<exists>c. m = Summary c (length perms)) \<or> (\<exists>e. m = MxError domain e))
                 \<and> alerts_of ev = [])"
      using run_shape[OF server, of sender debug no_check check_email perms delay] by blast
    show ?thesis
    proof (cases ca)
      case True
      have r: "?run perms = ?tr0 @ gate_ev" using g(7) True by simp
      have r0: "?run [] = ?tr0 @ gate_ev"
        using run_gate_closed[OF server g(1)] True by simp
      have "alerts_of (?run perms) = [domain]"
        using r g(4) True by (simp add: alerts_of_append initial_trace_plain)
      moreover have "probes_of (?run perms)
              = [(mx, sender, address_of_record domain check_email),
                 (mx, sender, synthetic_address net domain)]"
        using r g(3,5) True by (auto simp: probes_of_append initial_trace_plain)
      moreover have "last (?run perms) = Print (CatchAllAlert domain)"
        using r g(6) True by simp
      moreover have "?run perms = snd (motta_validate_info_address net domain sender mx debug
                        no_check check_email ?tr0)"
        using r g(1) by simp
      ultimately show ?thesis using g(2) True r r0 server by auto
    next
      case False
      have "alerts_of (?run perms) = []"
      proof (cases iv)
        case True
        then obtain ev m where
          "?run perms = (?tr0 @ gate_ev) @ ev @ [Print m]"
          "(\<exists>c. m = Summary c (length perms)) \<or> (\<exists>e. m = MxError domain e)"
          "alerts_of ev = []"
          using g(8) False by blast
        then show ?thesis
          using g(4) False by (auto simp: alerts_of_append initial_trace_plain)
      next
        case iv_False: False
        then show ?thesis
          using g(7,4) False by (simp add: alerts_of_append initial_trace_plain)
      qed
      then show ?thesis using g(2) False by simp
    qed
  qed
qed

theorem catch_all_gates_run_witness:
  "gate_verdict (example_network (Returns [''mx.example.com.'']) (\<lambda>rcpt. session_replying 250 250 250))
      ''example.com'' ''me@example.org'' 0 False None = Some (True, True)
   \<and> motta_validate_email_permutations
        (example_network (Returns [''mx.example.com.'']) (\<lambda>rcpt. session_replying 250 250 250))
        [''a@example.com'', ''b@example.com''] ''example.com'' ''me@example.org'' [20, 30] 0 False None
      = [Probe ''mx.example.com.'' ''me@example.org'' ''info@example.com'',
         Print Blank, Print (ConfirmsValid ''info@example.com''), Print Blank,
         Probe ''mx.example.com.'' ''me@example.org'' ''mottasec-abcdefghij@example.com'',
         Print (CatchAllAlert ''example.com'')]
   \<and> alerts_of (motta_validate_email_permutations
        (example_network (Returns [''mx.example.com.'']) (\<lambda>rcpt. session_replying 250 250 250))
        [''a@example.com'', ''b@example.com''] ''example.com'' ''me@example.org'' [20, 30] 0 False None)
      = [''example.com'']"
proof -
  let ?net = "example_network (Returns [''mx.example.com.'']) (\<lambda>rcpt. session_replying 250 250 250)"
  have g: "gate_verdict ?net ''example.com'' ''me@example.org'' 0 False None = Some (True, True)"
    by (simp add: gate_verdict_def motta_validate_info_address_def motta_validate_email_smtp_def
          smtp_commands_def initial_trace_def address_of_record_def synthetic_address_def
          example_network_def session_replying_def Let_def)
  have t: "snd (motta_validate_info_address ?net ''example.com'' ''me@example.org'' ''mx.example.com.''
                 0 False None (initial_trace 0 ''mx.example.com.''))
      = [Probe ''mx.example.com.'' ''me@example.org'' ''info@example.com'',
         Print Blank, Print (ConfirmsValid ''info@example.com''), Print Blank,
         Probe ''mx.example.com.'' ''me@example.org'' ''mottasec-abcdefghij@example.com'',
         Print (CatchAllAlert ''example.com'')]"
    by (simp add: motta_validate_info_address_def motta_validate_email_smtp_def
          smtp_commands_def initial_trace_def address_of_record_def synthetic_address_def
          example_network_def session_replying_def Let_def)
  have r: "resolve ?net ''example.com'' = Returns [''mx.example.com.'']"
    by (simp add: example_network_def)
  show ?thesis
    using catch_all_gates_run[of ?net "[''a@example.com'', ''b@example.com'']" "''example.com''"
            "''me@example.org''" "[20, 30]" 0 False None] g t r
    by auto
qed

subsection \<open>Claim C4: the address-of-record check gates the run\<close>




subsection \<open>Claim C5: with \<^verbatim>\<open>no_check\<close> the catch-all probe is skipped\<close>

text \<open>
  C5 fails on the code for runs with \<^verbatim>\<open>no_check\<close>: \<^verbatim>\<open>motta_validate_info_address\<close> returns
  \<open>(True, False)\<close> before it reaches the catch-all probe, so whenever the MX lookup gives a
  server, the run's sessions are sessions of candidates only, in list order and starting with
  the first candidate: no synthetic address is probed before them.
\<close>

theorem no_check_skips_catch_all_probe:
  assumes "resolve net domain = Returns (mx # others)" and "no_check"
  shows "gate_verdict net domain sender debug no_check check_email = Some (True, False)
       \<and> prefix (probes_of (motta_validate_email_permutations net perms domain sender delay debug
                               no_check check_email))
                 (map (\<lambda>e. (mx, sender, e)) perms)
       \<and> (perms \<noteq> [] \<longrightarrow>
            probes_of (motta_validate_email_permutations net perms domain sender delay debug
                         no_check check_email) \<noteq> [])"
proof -
  let ?run = "motta_validate_email_permutations net perms domain sender delay debug no_check check_email"
  let ?tr0 = "initial_trace debug mx"
  obtain iv ca gate_ev where g:
    "gate_verdict net domain sender debug no_check check_email = Some (iv, ca)"
    "probes_of gate_ev =
          (if no_check then []
           else [(mx, sender, address_of_record domain check_email),
                 (mx, sender, synthetic_address net domain)])"
    "no_check \<longrightarrow> iv \<and> \<not> ca"
    "iv \<and> \<not> ca \<longrightarrow>
        (\<exists>ev m. ?run = (?tr0 @ gate_ev) @ ev @ [Print m]
               \<and> ((\<exists>c. m = Summary c (length perms)) \<or> (\<exists>e. m = MxError domain e))
               \<and> prefix (probes_of ev) (map (\<lambda>e. (mx, sender, e)) perms)
               \<and> (perms \<noteq> [] \<longrightarrow> probes_of ev \<noteq> [] \<and> results_of ev \<noteq> []))"
    using run_shape[OF assms(1), of sender debug no_check check_email perms delay] by blast
  have v: "iv" "\<not> ca" using g(3) assms(2) by simp_all
  obtain ev m where e:
    "?run = (?tr0 @ gate_ev) @ ev @ [Print m]"
    "prefix (probes_of ev) (map (\<lambda>e. (mx, sender, e)) perms)"
    "perms \<noteq> [] \<longrightarrow> probes_of ev \<noteq> [] \<and> results_of ev \<noteq> []"
    using g(4) v by blast
  have "probes_of ?run = probes_of ev"
    unfolding e(1) using g(2) assms(2) by (simp add: probes_of_append initial_trace_plain)
  then show ?thesis using e(2,3) g(1) v by simp
qed

theorem no_check_skips_catch_all_probe_witness:
  "motta_validate_email_permutations
     (example_network (Returns [''mx.example.com.'']) (\<lambda>rcpt. session_replying 250 250 250))
     [''a@example.com''] ''example.com'' ''me@example.org'' [0, 0] 0 True None
     = [Probe ''mx.example.com.'' ''me@example.org'' ''a@example.com'',
        Print Blank, Print (FoundValid ''a@example.com''), Print Blank,
        Print (Waiting 0), Sleep 0, Print (Summary 1 1)]
   \<and> prefix (probes_of (motta_validate_email_permutations
        (example_network (Returns [''mx.example.com.'']) (\<lambda>rcpt. session_replying 250 250 250))
        [''a@example.com''] ''example.com'' ''me@example.org'' [0, 0] 0 True None))
        [(''mx.example.com.'', ''me@example.org'', ''a@example.com'')]"
proof -
  let ?net = "example_network (Returns [''mx.example.com.'']) (\<lambda>rcpt. session_replying 250 250 250)"
  have r: "resolve ?net ''example.com'' = Returns (''mx.example.com.'' # [])"
    by (simp add: example_network_def)
  have t: "motta_validate_email_permutations ?net
     [''a@example.com''] ''example.com'' ''me@example.org'' [0, 0] 0 True None
     = [Probe ''mx.example.com.'' ''me@example.org'' ''a@example.com'',
        Print Blank, Print (FoundValid ''a@example.com''), Print Blank,
        Print (Waiting 0), Sleep 0, Print (Summary 1 1)]"
    by (simp add: motta_validate_email_permutations_def validate_permutations_try_def
          motta_validate_info_address_def motta_validate_email_smtp_def py_uniform_def
          smtp_commands_def initial_trace_def example_network_def session_replying_def Let_def)
  show ?thesis
    using no_check_skips_catch_all_probe[OF r, of True "''me@example.org''" 0 None
            "[''a@example.com'']" "[0, 0]"] t
    by simp
qed

subsection \<open>Claim C7: results come in the order of the candidates\<close>

text \<open>
  Whenever the run reaches the probing phase and every pause between probes completes, the
  results it reports are those of all the candidates, one for each, in the order of the list
  (the first candidate's session is the run's first with \<^verbatim>\<open>no_check\<close>, its third otherwise).
\<close>

lemma results_when_pauses_complete:
  assumes "gate_verdict net domain sender debug no_check check_email = Some (True, False)"
    and "pauses_complete net delay"
  shows "\<exists>mx others.
           resolve net domain = Returns (mx # others)
         \<and> results_of (motta_validate_email_permutations net perms domain sender delay debug
                         no_check check_email)
             = expected_results net sender mx (if no_check then 0 else 2) perms"
proof -
  let ?run = "motta_validate_email_permutations net perms domain sender delay debug no_check check_email"
  obtain mx others where server: "resolve net domain = Returns (mx # others)"
    using assms(1) by (auto simp: gate_verdict_def split: outcome.splits list.splits)
  let ?tr0 = "initial_trace debug mx"
  obtain iv ca gate_ev where g:
    "gate_verdict net domain sender debug no_check check_email = Some (iv, ca)"
    "probes_of gate_ev =
          (if no_check then []
           else [(mx, sender, address_of_record domain check_email),
                 (mx, sender, synthetic_address net domain)])"
    "iv \<longrightarrow> results_of gate_ev = []"
    "iv \<and> \<not> ca \<longrightarrow>
        (\<exists>ev m. ?run = (?tr0 @ gate_ev) @ ev @ [Print m]
               \<and> ((\<exists>c. m = Summary c (length perms)) \<or> (\<exists>e. m = MxError domain e))
               \<and> (pauses_complete net delay \<longrightarrow>
                    results_of ev = expected_results net sender mx (length (probes_of gate_ev)) perms))"
    using run_shape[OF server, of sender debug no_check check_email perms delay] by blast
  have v: "iv" "\<not> ca" using g(1) assms(1) by simp_all
  have n: "length (probes_of gate_ev) = (if no_check then 0 else 2)" using g(2) by simp
  obtain ev m where e:
    "?run = (?tr0 @ gate_ev) @ ev @ [Print m]"
    "(\<exists>c. m = Summary c (length perms)) \<or> (\<exists>e. m = MxError domain e)"
    "results_of ev = expected_results net sender mx (if no_check then 0 else 2) perms"
    using g(4) v assms(2) unfolding n by blast
  have "results_of ?run = results_of ev"
    unfolding e(1) using g(3) v(1) e(2)
    by (auto simp: results_of_append initial_trace_plain)
  then show ?thesis using server e(3) by auto
qed

text \<open>
  C7 fails on the code when a pause between two probes raises: the exception leaves the loop
  and is caught by the handler that reports a failed MX lookup, so the candidates that follow
  get no result. With the delay range \<open>[-2, -1]\<close> the duration drawn is negative and
  \<^verbatim>\<open>time.sleep\<close> raises \<^verbatim>\<open>ValueError\<close>: the run reaches the probing phase, reports the first
  candidate's result, prints the MX failure line and ends; the second candidate is never
  probed.
\<close>

theorem negative_delay_drops_results:
  "gate_verdict (example_network (Returns [''mx.example.com.'']) (mailboxes [''a@example.com'']))
      ''example.com'' ''me@example.org'' 0 True None = Some (True, False)
   \<and> motta_validate_email_permutations
        (example_network (Returns [''mx.example.com.'']) (mailboxes [''a@example.com'']))
        [''a@example.com'', ''b@example.com''] ''example.com'' ''me@example.org'' [- 2, - 1] 0 True None
      = [Probe ''mx.example.com.'' ''me@example.org'' ''a@example.com'',
         Print Blank, Print (FoundValid ''a@example.com''), Print Blank,
         Print (Waiting (- 3 / 2)), Print (MxError ''example.com'' ValueError)]
   \<and> results_of (motta_validate_email_permutations
        (example_network (Returns [''mx.example.com.'']) (mailboxes [''a@example.com'']))
        [''a@example.com'', ''b@example.com''] ''example.com'' ''me@example.org'' [- 2, - 1] 0 True None)
      = [(''a@example.com'', True)]"
  by (simp add: gate_verdict_def motta_validate_email_permutations_def validate_permutations_try_def
        motta_validate_info_address_def motta_validate_email_smtp_def py_uniform_def
        smtp_commands_def initial_trace_def
        example_network_def mailboxes_def session_replying_def Let_def)

end
